theory Spec2Isabelle
  imports Main
begin

section \<open>hubploy: the LocalImage class of hubploy/config.py\<close>

text \<open>
  The class talks to three collaborators: git (through gitutils), the docker client and
  repo2docker. Their answers are parameters of the model, collected in the record
  \<open>env\<close>; every call made to them is appended to a log kept in the record
  \<open>world\<close>, next to the class attribute \<open>LocalImage._docker\<close>.
\<close>

subsection \<open>Exceptions\<close>

text \<open>
  \<open>docker.errors\<close>: ImageNotFound is a subclass of NotFound, which is a subclass of
  APIError. The kind is the class the exception was raised with; the second argument
  is its attribute \<open>explanation\<close>, a string or None (the default of the constructor
  of APIError).
\<close>

datatype api_kind = ImageNotFound | NotFound | APIError

text \<open>Exceptions raised by a collaborator.\<close>

datatype exn = DockerError api_kind "string option" | OtherError string

text \<open>
  What a method of LocalImage raises: the ValueError of \<open>needs_building\<close> itself,
  the AttributeError of \<open>e.explanation.startswith\<close> in \<open>exists_in_registry\<close> when the
  explanation is None (it carries the name of the attribute that None does not have), or
  an exception of a collaborator that it lets through.
\<close>

datatype error = ValueError string | AttributeError string | Raised exn

text \<open>\<open>except docker.errors.ImageNotFound\<close>\<close>

fun is_ImageNotFound :: "exn \<Rightarrow> bool" where
  "is_ImageNotFound (DockerError ImageNotFound x) = True"
| "is_ImageNotFound e = False"

text \<open>\<open>except docker.errors.NotFound\<close>: the class and its subclass.\<close>

fun is_NotFound :: "exn \<Rightarrow> bool" where
  "is_NotFound (DockerError ImageNotFound x) = True"
| "is_NotFound (DockerError NotFound x) = True"
| "is_NotFound e = False"

text \<open>\<open>s.startswith(p)\<close>\<close>

definition startswith :: "string \<Rightarrow> string \<Rightarrow> bool" where
  "startswith s p = (take (length p) s = p)"

subsection \<open>Python values\<close>

text \<open>
  \<open>gitutils.last_modified_commit\<close> returns a string or None: \<open>string option\<close>, with
  None for Python's None. \<open>truthy\<close> is the test of \<open>if not self.tag\<close> and
  \<open>if commit_range\<close>; \<open>py_str\<close> is what an f-string prints.
\<close>

fun truthy :: "string option \<Rightarrow> bool" where
  "truthy None = False"
| "truthy (Some s) = (s \<noteq> [])"

fun py_str :: "string option \<Rightarrow> string" where
  "py_str None = ''None''"
| "py_str (Some s) = s"

subsection \<open>The class and its collaborators\<close>

text \<open>The fields of the Repo2Docker object that LocalImage sets.\<close>

record Repo2Docker =
  subdir :: string
  output_image_spec :: string
  user_id :: int
  user_name :: string
  target_repo_dir :: string
  cache_from :: "string list"

record LocalImage =
  name :: string
  tag :: string
  path :: string
  helm_substitution_path :: string
  image_spec :: string
  r2d :: Repo2Docker

text \<open>
  A call to a collaborator. The docker calls carry the client object they were made on
  (a number: the clients are numbered in the order of their construction); the
  repo2docker calls carry the object's fields at the time of the call.
\<close>

datatype call =
    LastModifiedCommit string "nat option"
  | PathTouched string string
  | FromEnv
  | GetRegistryData nat string
  | Pull nat string
  | R2dInitialize Repo2Docker
  | R2dBuild Repo2Docker
  | R2dPushImage Repo2Docker

text \<open>
  The answers of the collaborators during one operation. \<open>last_modified_commit\<close> takes
  the path and the keyword argument \<open>n\<close> (None when the call site leaves it out);
  \<open>get_registry_data\<close> returns the manifest (a digest here) or Python's None.
\<close>

record env =
  last_modified_commit :: "string \<Rightarrow> nat option \<Rightarrow> exn + string option"
  path_touched :: "string \<Rightarrow> string \<Rightarrow> exn + bool"
  from_env :: "exn + unit"
  get_registry_data :: "string \<Rightarrow> exn + string option"
  pull :: "string \<Rightarrow> exn + unit"
  initialize :: "Repo2Docker \<Rightarrow> exn + unit"
  build_r2d :: "Repo2Docker \<Rightarrow> exn + unit"
  push_image :: "Repo2Docker \<Rightarrow> exn + unit"

text \<open>
  The state outside the instances: the log of calls, the class attribute
  \<open>LocalImage._docker\<close> (None while the class has no such attribute) and the number of
  clients that \<open>docker.from_env()\<close> has constructed.
\<close>

record world =
  calls :: "call list"
  docker_attr :: "nat option"
  clients_made :: nat

definition log :: "call \<Rightarrow> world \<Rightarrow> world" where
  "log c w = w\<lparr>calls := calls w @ [c]\<rparr>"

definition initial_world :: world where
  "initial_world = \<lparr>calls = [], docker_attr = None, clients_made = 0\<rparr>"

subsection \<open>The methods\<close>

text \<open>
  \<open>__init__\<close>. The Repo2Docker object is created with an empty \<open>cache_from\<close>, its
  default.
\<close>

definition default_helm_substitution_path :: string where
  "default_helm_substitution_path = ''jupyterhub.singleuser.image''"

definition resolve_tag :: "string option \<Rightarrow> string" where
  "resolve_tag t = (if \<not> truthy t then ''latest'' else py_str t)"

definition init :: "env \<Rightarrow> string \<Rightarrow> string \<Rightarrow> string \<Rightarrow> world \<Rightarrow> (error + LocalImage) \<times> world" where
  "init e nm pth helm w =
     (let w1 = log (LastModifiedCommit pth None) w in
      case last_modified_commit e pth None of
        Inl x \<Rightarrow> (Inl (Raised x), w1)
      | Inr t \<Rightarrow>
          (let tg = resolve_tag t;
               spec = nm @ '':'' @ tg;
               r = \<lparr>subdir = pth, output_image_spec = spec, user_id = 1000,
                    user_name = ''jovyan'', target_repo_dir = ''/srv/repo'',
                    cache_from = []\<rparr>;
               w2 = log (R2dInitialize r) w1
           in case initialize e r of
                Inl x \<Rightarrow> (Inl (Raised x), w2)
              | Inr u \<Rightarrow>
                  (Inr \<lparr>name = nm, tag = tg, path = pth, helm_substitution_path = helm,
                        image_spec = spec, r2d = r\<rparr>, w2)))"

text \<open>
  The property \<open>docker\<close>: \<open>hasattr(self.__class__, '_docker')\<close> is
  \<open>docker_attr w \<noteq> None\<close>.
\<close>

definition docker :: "env \<Rightarrow> LocalImage \<Rightarrow> world \<Rightarrow> (exn + nat) \<times> world" where
  "docker e self w =
     (case docker_attr w of
        Some c \<Rightarrow> (Inr c, w)
      | None \<Rightarrow>
          (let w1 = log FromEnv w in
           case from_env e of
             Inl x \<Rightarrow> (Inl x, w1)
           | Inr u \<Rightarrow>
               (let c = clients_made w1
                in (Inr c, w1\<lparr>docker_attr := Some c, clients_made := Suc c\<rparr>))))"

text \<open>
  The expression \<open>self.docker.images.get_registry_data(self.image_spec)\<close>, the body of
  the try block of \<open>exists_in_registry\<close>.
\<close>

definition registry_data :: "env \<Rightarrow> LocalImage \<Rightarrow> world \<Rightarrow> (exn + string option) \<times> world" where
  "registry_data e self w =
     (case docker e self w of
        (Inl x, w1) \<Rightarrow> (Inl x, w1)
      | (Inr c, w1) \<Rightarrow>
          (get_registry_data e (image_spec self), log (GetRegistryData c (image_spec self)) w1))"

definition exists_in_registry :: "env \<Rightarrow> LocalImage \<Rightarrow> world \<Rightarrow> (error + bool) \<times> world" where
  "exists_in_registry e self w =
     (case registry_data e self w of
        (Inr image_manifest, w1) \<Rightarrow> (Inr (image_manifest \<noteq> None), w1)
      | (Inl (DockerError k x), w1) \<Rightarrow>
          (if is_ImageNotFound (DockerError k x) then (Inr False, w1)
           else (case x of
                   None \<Rightarrow>
                     (Inl (AttributeError ''startswith''), w1)
                 | Some explanation \<Rightarrow>
                     if startswith explanation ''manifest unknown: '' then (Inr False, w1)
                     else (Inl (Raised (DockerError k x)), w1)))
      | (Inl x, w1) \<Rightarrow> (Inl (Raised x), w1))"

text \<open>
  \<open>get_possible_parent_tags\<close> is a generator over \<open>range(1, n)\<close>: each tag is asked
  of git when the consumer asks for the next one. \<open>parent_offsets\<close> is the range,
  \<open>next_parent_tag\<close> one step of the generator, and \<open>get_possible_parent_tags\<close> the
  generator consumed to its end.
\<close>

definition parent_offsets :: "nat \<Rightarrow> nat list" where
  "parent_offsets n = [1..<n]"

definition next_parent_tag :: "env \<Rightarrow> LocalImage \<Rightarrow> nat \<Rightarrow> world \<Rightarrow> (exn + string option) \<times> world" where
  "next_parent_tag e self i w =
     (last_modified_commit e (path self) (Some i), log (LastModifiedCommit (path self) (Some i)) w)"

fun parent_tags_loop :: "env \<Rightarrow> LocalImage \<Rightarrow> nat list \<Rightarrow> world \<Rightarrow> (error + string option list) \<times> world" where
  "parent_tags_loop e self [] w = (Inr [], w)"
| "parent_tags_loop e self (i # rest) w =
     (case next_parent_tag e self i w of
        (Inl x, w1) \<Rightarrow> (Inl (Raised x), w1)
      | (Inr t, w1) \<Rightarrow>
          (case parent_tags_loop e self rest w1 of
             (Inl x, w2) \<Rightarrow> (Inl x, w2)
           | (Inr ts, w2) \<Rightarrow> (Inr (t # ts), w2)))"

definition get_possible_parent_tags :: "env \<Rightarrow> LocalImage \<Rightarrow> nat \<Rightarrow> world \<Rightarrow> (error + string option list) \<times> world" where
  "get_possible_parent_tags e self n w = parent_tags_loop e self (parent_offsets n) w"

text \<open>
  The expression \<open>self.docker.images.pull(parent_image_spec)\<close>, inside the try block of
  \<open>fetch_parent_image\<close>. (The \<open>print\<close> before it is left out.)
\<close>

definition pull_image :: "env \<Rightarrow> LocalImage \<Rightarrow> string \<Rightarrow> world \<Rightarrow> (exn + unit) \<times> world" where
  "pull_image e self spec w =
     (case docker e self w of
        (Inl x, w1) \<Rightarrow> (Inl x, w1)
      | (Inr c, w1) \<Rightarrow> (pull e spec, log (Pull c spec) w1))"

text \<open>The for loop of \<open>fetch_parent_image\<close> over the offsets still to come.\<close>

fun fetch_loop :: "env \<Rightarrow> LocalImage \<Rightarrow> nat list \<Rightarrow> world \<Rightarrow> (error + string option) \<times> world" where
  "fetch_loop e self [] w = (Inr None, w)"
| "fetch_loop e self (i # rest) w =
     (case next_parent_tag e self i w of
        (Inl x, w1) \<Rightarrow> (Inl (Raised x), w1)
      | (Inr t, w1) \<Rightarrow>
          (let parent_image_spec = name self @ '':'' @ py_str t in
           case pull_image e self parent_image_spec w1 of
             (Inr u, w2) \<Rightarrow> (Inr (Some parent_image_spec), w2)
           | (Inl x, w2) \<Rightarrow>
               (if is_NotFound x then fetch_loop e self rest w2
                else (Inl (Raised x), w2))))"

definition fetch_parent_image :: "env \<Rightarrow> LocalImage \<Rightarrow> world \<Rightarrow> (error + string option) \<times> world" where
  "fetch_parent_image e self w = fetch_loop e self (parent_offsets 16) w"

text \<open>
  \<open>needs_building\<close>: \<open>check_registry\<close> is a bool, \<open>commit_range\<close> a string or None.
  Past the two checks, \<open>commit_range\<close> is true wherever \<open>check_registry\<close> is false, so
  the last \<open>if\<close> of the source has no other branch to fall into.
\<close>

definition needs_building :: "env \<Rightarrow> LocalImage \<Rightarrow> bool \<Rightarrow> string option \<Rightarrow> world \<Rightarrow> (error + bool) \<times> world" where
  "needs_building e self check_registry commit_range w =
     (if check_registry \<and> truthy commit_range then
        (Inl (ValueError ''Only one of check_registry or commit_range can be set''), w)
      else if \<not> (check_registry \<or> truthy commit_range) then
        (Inl (ValueError ''One of check_registry or commit_range must be set''), w)
      else if check_registry then
        (case exists_in_registry e self w of
           (Inl x, w1) \<Rightarrow> (Inl x, w1)
         | (Inr b, w1) \<Rightarrow> (Inr (\<not> b), w1))
      else
        (case path_touched e (path self) (py_str commit_range) of
           Inl x \<Rightarrow> (Inl (Raised x), log (PathTouched (path self) (py_str commit_range)) w)
         | Inr b \<Rightarrow> (Inr b, log (PathTouched (path self) (py_str commit_range)) w)))"

text \<open>
  \<open>build\<close> is the one method that assigns to a field: \<open>self.r2d.cache_from\<close>. It
  returns the instance as it leaves it.
\<close>

definition build :: "env \<Rightarrow> LocalImage \<Rightarrow> world \<Rightarrow> (error + unit) \<times> LocalImage \<times> world" where
  "build e self w =
     (case fetch_parent_image e self w of
        (Inl x, w1) \<Rightarrow> (Inl x, self, w1)
      | (Inr parent_image_spec, w1) \<Rightarrow>
          (let self1 = (if truthy parent_image_spec
                        then self\<lparr>r2d := (r2d self)\<lparr>cache_from := [py_str parent_image_spec]\<rparr>\<rparr>
                        else self);
               w2 = log (R2dBuild (r2d self1)) w1
           in case build_r2d e (r2d self1) of
                Inl x \<Rightarrow> (Inl (Raised x), self1, w2)
              | Inr u \<Rightarrow> (Inr (), self1, w2)))"

definition push :: "env \<Rightarrow> LocalImage \<Rightarrow> world \<Rightarrow> (error + unit) \<times> world" where
  "push e self w =
     (case push_image e (r2d self) of
        Inl x \<Rightarrow> (Inl (Raised x), log (R2dPushImage (r2d self)) w)
      | Inr u \<Rightarrow> (Inr (), log (R2dPushImage (r2d self)) w))"

subsection \<open>A process\<close>

text \<open>
  A process constructs instances and calls their methods, in any order. Each step runs
  under the answers the collaborators give at that time, so the registry and the
  repository may change between two steps. An exception ends the step, not the process:
  the caller may catch it.
\<close>

datatype operation =
    Docker
  | ExistsInRegistry
  | GetPossibleParentTags nat
  | FetchParentImage
  | NeedsBuilding bool "string option"
  | Build
  | Push

fun invoke :: "env \<Rightarrow> operation \<Rightarrow> LocalImage \<Rightarrow> world \<Rightarrow> LocalImage \<times> world" where
  "invoke e Docker self w = (self, snd (docker e self w))"
| "invoke e ExistsInRegistry self w = (self, snd (exists_in_registry e self w))"
| "invoke e (GetPossibleParentTags n) self w = (self, snd (get_possible_parent_tags e self n w))"
| "invoke e FetchParentImage self w = (self, snd (fetch_parent_image e self w))"
| "invoke e (NeedsBuilding check_registry commit_range) self w =
     (self, snd (needs_building e self check_registry commit_range w))"
| "invoke e Build self w = snd (build e self w)"
| "invoke e Push self w = (self, snd (push e self w))"

datatype action = Construct string string string | Call nat operation

fun act :: "env \<Rightarrow> action \<Rightarrow> LocalImage list \<times> world \<Rightarrow> LocalImage list \<times> world" where
  "act e (Construct nm pth helm) (imgs, w) =
     (case init e nm pth helm w of
        (Inl x, w1) \<Rightarrow> (imgs, w1)
      | (Inr img, w1) \<Rightarrow> (imgs @ [img], w1))"
| "act e (Call i m) (imgs, w) =
     (if i < length imgs
      then (case invoke e m (imgs ! i) w of (img1, w1) \<Rightarrow> (imgs[i := img1], w1))
      else (imgs, w))"

fun run :: "(env \<times> action) list \<Rightarrow> LocalImage list \<times> world \<Rightarrow> LocalImage list \<times> world" where
  "run [] p = p"
| "run ((e, a) # rest) p = run rest (act e a p)"

subsection \<open>The vocabulary of the properties\<close>

text \<open>
  What the registry answers to the manifest query counts as "absent" when the query
  returns None, raises ImageNotFound, or raises an APIError (of any subclass) whose
  explanation starts with \<open>manifest unknown: \<close>; the manifest "resolves" when the
  query returns one.
\<close>

definition registry_reports_absent :: "exn + string option \<Rightarrow> bool" where
  "registry_reports_absent r =
     (case r of
        Inr None \<Rightarrow> True
      | Inr (Some m) \<Rightarrow> False
      | Inl (DockerError k x) \<Rightarrow>
          k = ImageNotFound
          \<or> (case x of None \<Rightarrow> False | Some s \<Rightarrow> startswith s ''manifest unknown: '')
      | Inl (OtherError x) \<Rightarrow> False)"

definition manifest_resolves :: "exn + string option \<Rightarrow> bool" where
  "manifest_resolves r = (case r of Inr (Some m) \<Rightarrow> True | Inr None \<Rightarrow> False | Inl x \<Rightarrow> False)"

text \<open>The fields that identify an image, and the equation between them.\<close>

definition same_identity :: "LocalImage \<Rightarrow> LocalImage \<Rightarrow> bool" where
  "same_identity a b =
     (name a = name b \<and> tag a = tag b \<and> path a = path b \<and> image_spec a = image_spec b)"

definition spec_consistent :: "LocalImage \<Rightarrow> bool" where
  "spec_consistent a = (image_spec a = name a @ '':'' @ tag a)"

text \<open>A docker client is at hand: stored on the class, or constructible.\<close>

definition client_ready :: "env \<Rightarrow> world \<Rightarrow> bool" where
  "client_ready e w = (docker_attr w \<noteq> None \<or> from_env e = Inr ())"

text \<open>
  At offset \<open>i\<close> git answers with a tag, and the pull of the candidate built from it is
  answered with NotFound (or its subclass).
\<close>

definition candidate_not_found :: "env \<Rightarrow> LocalImage \<Rightarrow> nat \<Rightarrow> bool" where
  "candidate_not_found e self i =
     (case last_modified_commit e (path self) (Some i) of
        Inl x \<Rightarrow> False
      | Inr t \<Rightarrow>
          (case pull e (name self @ '':'' @ py_str t) of
             Inl x \<Rightarrow> is_NotFound x
           | Inr u \<Rightarrow> False))"

text \<open>
  What one operation may do to the class attribute: leave it and the count of clients as
  they are, or, the attribute being unset, construct one client and store it.
\<close>

definition client_step :: "world \<Rightarrow> world \<Rightarrow> bool" where
  "client_step w w1 =
     ((docker_attr w1 = docker_attr w \<and> clients_made w1 = clients_made w)
      \<or> (docker_attr w = None \<and> docker_attr w1 = Some (clients_made w)
          \<and> clients_made w1 = Suc (clients_made w)))"

text \<open>
  The client that the property \<open>docker\<close> returns in a world where a client is at
  hand: the stored one, or the one that is constructed next.
\<close>

definition client_of :: "world \<Rightarrow> nat" where
  "client_of w = (case docker_attr w of Some c \<Rightarrow> c | None \<Rightarrow> clients_made w)"

text \<open>The log without the constructions of a client.\<close>

definition without_from_env :: "call list \<Rightarrow> call list" where
  "without_from_env cs = filter (\<lambda>c. c \<noteq> FromEnv) cs"

text \<open>
  The tag git answers with at offset \<open>i\<close>, the candidate built from it, and the calls
  that the probe makes for a list of offsets on client \<open>c\<close>: for each offset in turn,
  the question to git, then the pull of the candidate.
\<close>

definition tag_at :: "env \<Rightarrow> LocalImage \<Rightarrow> nat \<Rightarrow> string option" where
  "tag_at e self i =
     (case last_modified_commit e (path self) (Some i) of Inl x \<Rightarrow> None | Inr t \<Rightarrow> t)"

definition candidate_spec :: "env \<Rightarrow> LocalImage \<Rightarrow> nat \<Rightarrow> string" where
  "candidate_spec e self i = name self @ '':'' @ py_str (tag_at e self i)"

definition probe_calls :: "env \<Rightarrow> LocalImage \<Rightarrow> nat \<Rightarrow> nat list \<Rightarrow> call list" where
  "probe_calls e self c offs =
     concat (map (\<lambda>i. [LastModifiedCommit (path self) (Some i), Pull c (candidate_spec e self i)])
                 offs)"

text \<open>
  The Repo2Docker object that \<open>build\<close> runs the engine on: the one of the instance,
  with \<open>cache_from\<close> replaced when the probe returned a candidate and left as it is
  when the probe returned None.
\<close>

definition build_config :: "LocalImage \<Rightarrow> string option \<Rightarrow> Repo2Docker" where
  "build_config self probe =
     (r2d self)\<lparr>cache_from := (case probe of None \<Rightarrow> cache_from (r2d self) | Some s \<Rightarrow> [s])\<rparr>"

text \<open>The Repo2Docker object of an instance carries the instance's path and image spec.\<close>

definition r2d_wired :: "LocalImage \<Rightarrow> bool" where
  "r2d_wired self =
     (subdir (r2d self) = path self \<and> output_image_spec (r2d self) = image_spec self)"

text \<open>The exception is not an APIError whose explanation is None.\<close>

fun has_explanation :: "exn \<Rightarrow> bool" where
  "has_explanation (DockerError k None) = False"
| "has_explanation x = True"

subsection \<open>Concrete collaborators\<close>

text \<open>
  A repository where the path was last changed in commit c0ffee1 and before that in
  beef002 and nowhere else, and a registry that holds hub/img:beef002 only.
\<close>

definition example_env :: env where
  "example_env =
     \<lparr>last_modified_commit =
        (\<lambda>p n. Inr (if n = None then Some ''c0ffee1''
                     else if n = Some 2 then Some ''beef002'' else Some [])),
      path_touched = (\<lambda>p r. Inr (r = ''main..pr'')),
      from_env = Inr (),
      get_registry_data = (\<lambda>s. Inl (DockerError ImageNotFound (Some ''no such image''))),
      pull = (\<lambda>s. if s = ''hub/img:beef002'' then Inr ()
                   else Inl (DockerError NotFound (Some ''not found''))),
      initialize = (\<lambda>r. Inr ()),
      build_r2d = (\<lambda>r. Inr ()),
      push_image = (\<lambda>r. Inr ())\<rparr>"

definition example_image :: LocalImage where
  "example_image =
     \<lparr>name = ''hub/img'', tag = ''c0ffee1'', path = ''/repo/image'',
      helm_substitution_path = ''jupyterhub.singleuser.image'',
      image_spec = ''hub/img:c0ffee1'',
      r2d = \<lparr>subdir = ''/repo/image'', output_image_spec = ''hub/img:c0ffee1'',
             user_id = 1000, user_name = ''jovyan'', target_repo_dir = ''/srv/repo'',
             cache_from = []\<rparr>\<rparr>"

text \<open>
  A repository with a long history of the path, where the registry holds the image of
  the sixteenth commit back only.
\<close>

definition sixteenth_env :: env where
  "sixteenth_env =
     example_env
       \<lparr>last_modified_commit :=
          (\<lambda>p n. Inr (if n = None then Some ''c0ffee1''
                       else if n = Some 16 then Some ''0016abc'' else Some ''0000fff'')),
        pull := (\<lambda>s. if s = ''hub/img:0016abc'' then Inr ()
                      else Inl (DockerError NotFound (Some ''not found'')))\<rparr>"

text \<open>
  A registry that answers the manifest query for hub/img:c0ffee1 with an APIError that
  carries no explanation.
\<close>

definition unexplained_error_env :: env where
  "unexplained_error_env =
     example_env
       \<lparr>get_registry_data :=
          (\<lambda>s. if s = ''hub/img:c0ffee1'' then Inl (DockerError APIError None)
                else Inr (Some ''sha256:1f''))\<rparr>"

text \<open>A repository where the path was changed in one commit only.\<close>

definition no_history_env :: env where
  "no_history_env =
     example_env
       \<lparr>last_modified_commit := (\<lambda>p n. Inr (if n = None then Some ''c0ffee1'' else Some []))\<rparr>"

text \<open>A registry that holds no image.\<close>

definition empty_registry_env :: env where
  "empty_registry_env =
     example_env\<lparr>pull := (\<lambda>s. Inl (DockerError NotFound (Some ''not found'')))\<rparr>"

text \<open>The example image after a build whose probe found hub/img:beef002.\<close>

definition built_image :: LocalImage where
  "built_image =
     example_image\<lparr>r2d := (r2d example_image)\<lparr>cache_from := [''hub/img:beef002'']\<rparr>\<rparr>"

section \<open>Properties\<close>

subsection \<open>Auxiliary facts\<close>

lemma is_ImageNotFound_iff: "is_ImageNotFound (DockerError k x) = (k = ImageNotFound)"
  by (cases k) simp_all

lemma exists_in_registry_not_ValueError: "fst (exists_in_registry e self w) \<noteq> Inl (ValueError m)"
  by (auto simp: exists_in_registry_def split: prod.splits sum.splits exn.splits option.splits)

lemma without_from_env_append:
  "without_from_env (xs @ ys) = without_from_env xs @ without_from_env ys"
  by (simp add: without_from_env_def)

lemma docker_exact:
  assumes "client_ready e w"
  shows "\<exists>w1. docker e self w = (Inr (client_of w), w1) \<and> docker_attr w1 = Some (client_of w)
           \<and> without_from_env (calls w1) = without_from_env (calls w)"
  using assms
  by (auto simp: client_ready_def docker_def client_of_def Let_def log_def without_from_env_def
      split: option.splits sum.splits)

lemma client_of_stored: "docker_attr w = Some c \<Longrightarrow> client_of w = c"
  by (simp add: client_of_def)

lemma client_of_log: "client_of (log c w) = client_of w"
  by (simp add: client_of_def log_def split: option.splits)

subsection \<open>The build decision\<close>

lemma registry_data_exact:
  assumes "client_ready e w"
  shows "\<exists>w1. registry_data e self w = (get_registry_data e (image_spec self), w1)
           \<and> without_from_env (calls w1)
               = without_from_env (calls w) @ [GetRegistryData (client_of w) (image_spec self)]"
proof -
  from docker_exact [OF assms, of self] obtain w0 where
    "docker e self w = (Inr (client_of w), w0)"
    "without_from_env (calls w0) = without_from_env (calls w)"
    by blast
  then show ?thesis
    by (simp add: registry_data_def log_def without_from_env_def)
qed

lemma needs_building_registry_policy:
  assumes "\<not> truthy commit_range" and "client_ready e w"
  shows "(fst (needs_building e self True commit_range w) = Inr True
            \<longleftrightarrow> registry_reports_absent (get_registry_data e (image_spec self)))
       \<and> (fst (needs_building e self True commit_range w) = Inr False
            \<longleftrightarrow> manifest_resolves (get_registry_data e (image_spec self)))
       \<and> (\<forall>x. get_registry_data e (image_spec self) = Inl x
               \<and> \<not> registry_reports_absent (Inl x) \<and> has_explanation x
            \<longrightarrow> fst (needs_building e self True commit_range w) = Inl (Raised x))
       \<and> (\<forall>k. get_registry_data e (image_spec self) = Inl (DockerError k None)
               \<and> k \<noteq> ImageNotFound
            \<longrightarrow> fst (needs_building e self True commit_range w)
                  = Inl (AttributeError ''startswith''))
       \<and> without_from_env (calls (snd (needs_building e self True commit_range w)))
           = without_from_env (calls w) @ [GetRegistryData (client_of w) (image_spec self)]"
proof -
  from registry_data_exact [OF assms(2), of self] obtain w1 where
    r: "registry_data e self w = (get_registry_data e (image_spec self), w1)"
    and c: "without_from_env (calls w1)
               = without_from_env (calls w) @ [GetRegistryData (client_of w) (image_spec self)]"
    by blast
  show ?thesis
  proof (cases "get_registry_data e (image_spec self)")
    case (Inr m)
    with r c assms(1) show ?thesis
      by (cases m)
        (simp_all add: needs_building_def exists_in_registry_def registry_reports_absent_def
          manifest_resolves_def)
  next
    case (Inl x)
    show ?thesis
    proof (cases x)
      case (OtherError msg)
      with Inl r c assms(1) show ?thesis
        by (simp add: needs_building_def exists_in_registry_def registry_reports_absent_def
            manifest_resolves_def)
    next
      case (DockerError k expl)
      with Inl r c assms(1) show ?thesis
        by (cases expl; cases k)
          (simp_all add: needs_building_def exists_in_registry_def registry_reports_absent_def
            manifest_resolves_def)
    qed
  qed
qed

text \<open>
  C1. With \<open>check_registry\<close> true and no commit range, \<open>needs_building\<close> returns True
  exactly when the registry reports the manifest absent and False exactly when the
  manifest resolves, and it raises an exception of the query as it came when that
  exception carries an explanation (the lemma above). An APIError without explanation is
  not raised as it came: for the registry that answers the query for hub/img:c0ffee1 with
  such an error, \<open>needs_building\<close> asks that query and raises the AttributeError of
  \<open>e.explanation.startswith\<close> instead of the APIError.
\<close>

theorem needs_building_unexplained_api_error:
  "get_registry_data unexplained_error_env (image_spec example_image)
     = Inl (DockerError APIError None)
   \<and> needs_building unexplained_error_env example_image True None initial_world
     = (Inl (AttributeError ''startswith''),
        \<lparr>calls = [FromEnv, GetRegistryData 0 ''hub/img:c0ffee1''],
         docker_attr = Some 0, clients_made = 1\<rparr>)
   \<and> fst (needs_building unexplained_error_env example_image True None initial_world)
     \<noteq> Inl (Raised (DockerError APIError None))"
  by (simp add: needs_building_def exists_in_registry_def registry_data_def docker_def
      unexplained_error_env_def example_env_def example_image_def initial_world_def log_def
      Let_def)

text \<open>
  C2. \<open>needs_building\<close> raises its ValueError, and calls no collaborator, when
  \<open>check_registry\<close> is true and \<open>commit_range\<close> is a non-empty string, and when
  \<open>check_registry\<close> is false and \<open>commit_range\<close> is None or empty; in every other
  case it raises no ValueError.
\<close>

theorem needs_building_usage_error:
  "(check_registry \<and> truthy commit_range \<longrightarrow>
      needs_building e self check_registry commit_range w =
        (Inl (ValueError ''Only one of check_registry or commit_range can be set''), w))
   \<and> (\<not> check_registry \<and> \<not> truthy commit_range \<longrightarrow>
      needs_building e self check_registry commit_range w =
        (Inl (ValueError ''One of check_registry or commit_range must be set''), w))
   \<and> (check_registry \<noteq> truthy commit_range \<longrightarrow>
      (\<forall>m. fst (needs_building e self check_registry commit_range w) \<noteq> Inl (ValueError m)))"
proof (intro conjI impI allI)
  fix m
  assume h: "check_registry \<noteq> truthy commit_range"
  show "fst (needs_building e self check_registry commit_range w) \<noteq> Inl (ValueError m)"
  proof (cases check_registry)
    case True
    with h have "\<not> truthy commit_range" by simp
    with True exists_in_registry_not_ValueError [of e self w m] show ?thesis
      by (auto simp: needs_building_def split: prod.splits sum.splits)
  next
    case False
    with h have "truthy commit_range" by simp
    with False show ?thesis
      by (auto simp: needs_building_def split: sum.splits)
  qed
qed (simp_all add: needs_building_def)

theorem needs_building_usage_error_witness:
  "needs_building example_env example_image True (Some ''main..pr'') initial_world =
     (Inl (ValueError ''Only one of check_registry or commit_range can be set''), initial_world)
   \<and> needs_building example_env example_image False None initial_world =
     (Inl (ValueError ''One of check_registry or commit_range must be set''), initial_world)
   \<and> needs_building example_env example_image False (Some []) initial_world =
     (Inl (ValueError ''One of check_registry or commit_range must be set''), initial_world)
   \<and> (\<forall>m. fst (needs_building example_env example_image True None initial_world)
            \<noteq> Inl (ValueError m))
   \<and> (\<forall>m. fst (needs_building example_env example_image False (Some ''main..pr'') initial_world)
            \<noteq> Inl (ValueError m))"
  using
    needs_building_usage_error [of True "Some ''main..pr''" example_env example_image initial_world]
    needs_building_usage_error [of False None example_env example_image initial_world]
    needs_building_usage_error [of False "Some []" example_env example_image initial_world]
    needs_building_usage_error [of True None example_env example_image initial_world]
    needs_building_usage_error [of False "Some ''main..pr''" example_env example_image initial_world]
  by simp

text \<open>
  C5. With \<open>check_registry\<close> false and a non-empty commit range, \<open>needs_building\<close>
  returns True exactly when \<open>gitutils.path_touched\<close> returns True for the image's path
  and that range, and False exactly when it returns False; the one call it makes is that
  call to git, so the registry is not asked.
\<close>

theorem needs_building_commit_range:
  assumes "s \<noteq> []"
  shows "(fst (needs_building e self False (Some s) w) = Inr True
            \<longleftrightarrow> path_touched e (path self) s = Inr True)
       \<and> (fst (needs_building e self False (Some s) w) = Inr False
            \<longleftrightarrow> path_touched e (path self) s = Inr False)
       \<and> snd (needs_building e self False (Some s) w) = log (PathTouched (path self) s) w"
  using assms
  by (auto simp: needs_building_def split: sum.splits)

theorem needs_building_commit_range_witness:
  "fst (needs_building example_env example_image False (Some ''main..pr'') initial_world) = Inr True
   \<and> fst (needs_building example_env example_image False (Some ''v1..v2'') initial_world) = Inr False
   \<and> calls (snd (needs_building example_env example_image False (Some ''main..pr'') initial_world))
       = [PathTouched ''/repo/image'' ''main..pr'']"
  using
    needs_building_commit_range [of "''main..pr''" example_env example_image initial_world]
    needs_building_commit_range [of "''v1..v2''" example_env example_image initial_world]
  by (simp add: example_env_def example_image_def initial_world_def log_def)

subsection \<open>Construction\<close>

text \<open>
  C4. When \<open>gitutils.last_modified_commit(path)\<close> (called without \<open>n\<close>: the most recent
  commit touching the path) returns a revision id, that id is the tag; when it returns
  nothing (None or the empty string), the tag is \<open>latest\<close>; in both cases
  \<open>__init__\<close> goes on and, repo2docker initialising, returns the instance.
\<close>

theorem init_tag:
  assumes "last_modified_commit e pth None = Inr t"
    and "\<And>r. initialize e r = Inr ()"
  shows "\<exists>img w'. init e nm pth helm w = (Inr img, w')
           \<and> (\<forall>s. t = Some s \<and> s \<noteq> [] \<longrightarrow> tag img = s)
           \<and> (t = None \<or> t = Some [] \<longrightarrow> tag img = ''latest'')"
  using assms
  by (auto simp: init_def Let_def resolve_tag_def)

theorem init_tag_witness:
  "(\<exists>img w'. init example_env ''hub/img'' ''/repo/image'' default_helm_substitution_path
                initial_world = (Inr img, w') \<and> tag img = ''c0ffee1'')
   \<and> (\<exists>img w'. init (example_env\<lparr>last_modified_commit := (\<lambda>p n. Inr (Some []))\<rparr>)
                ''hub/img'' ''/repo/image'' default_helm_substitution_path
                initial_world = (Inr img, w') \<and> tag img = ''latest'')
   \<and> (\<exists>img w'. init (example_env\<lparr>last_modified_commit := (\<lambda>p n. Inr None)\<rparr>)
                ''hub/img'' ''/repo/image'' default_helm_substitution_path
                initial_world = (Inr img, w') \<and> tag img = ''latest'')"
  using
    init_tag [of example_env "''/repo/image''" "Some ''c0ffee1''" "''hub/img''"
      default_helm_substitution_path initial_world]
    init_tag [of "example_env\<lparr>last_modified_commit := (\<lambda>p n. Inr (Some []))\<rparr>"
      "''/repo/image''" "Some []" "''hub/img''" default_helm_substitution_path initial_world]
    init_tag [of "example_env\<lparr>last_modified_commit := (\<lambda>p n. Inr None)\<rparr>"
      "''/repo/image''" None "''hub/img''" default_helm_substitution_path initial_world]
  by (simp add: example_env_def)

subsection \<open>The cache probe\<close>

lemma docker_stored: "docker_attr w = Some c \<Longrightarrow> docker e self w = (Inr c, w)"
  by (simp add: docker_def)

lemma docker_ready:
  assumes "client_ready e w"
  shows "\<exists>c w1. docker e self w = (Inr c, w1) \<and> docker_attr w1 = Some c
           \<and> set (calls w) \<subseteq> set (calls w1)"
  using assms
  by (auto simp: client_ready_def docker_def Let_def log_def split: option.splits sum.splits)

lemma pull_image_ready:
  assumes "client_ready e w"
  shows "\<exists>c w1. pull_image e self spec w = (pull e spec, w1) \<and> docker_attr w1 = Some c
           \<and> Pull c spec \<in> set (calls w1) \<and> set (calls w) \<subseteq> set (calls w1)"
proof -
  from docker_ready [OF assms, of self] obtain c w0 where
    d: "docker e self w = (Inr c, w0)" "docker_attr w0 = Some c" "set (calls w) \<subseteq> set (calls w0)"
    by blast
  then show ?thesis
    by (auto simp: pull_image_def log_def)
qed

lemma client_ready_stored: "docker_attr w = Some c \<Longrightarrow> client_ready e w"
  by (simp add: client_ready_def)

lemma client_ready_log: "client_ready e (log c w) = client_ready e w"
  by (simp add: client_ready_def log_def)

lemma fetch_loop_absorb:
  assumes "client_ready e w" and "candidate_not_found e self i"
  shows "\<exists>w1. client_ready e w1 \<and> set (calls w) \<subseteq> set (calls w1)
           \<and> fetch_loop e self (i # rest) w = fetch_loop e self rest w1"
proof -
  from assms(2) obtain t x where
    t: "last_modified_commit e (path self) (Some i) = Inr t"
    and x: "pull e (name self @ '':'' @ py_str t) = Inl x" "is_NotFound x"
    by (auto simp: candidate_not_found_def split: sum.splits)
  let ?w0 = "log (LastModifiedCommit (path self) (Some i)) w"
  have "client_ready e ?w0" using assms(1) by (simp add: client_ready_log)
  from pull_image_ready [OF this, of self "name self @ '':'' @ py_str t"] obtain c w1 where
    p: "pull_image e self (name self @ '':'' @ py_str t) ?w0 = (pull e (name self @ '':'' @ py_str t), w1)"
      "docker_attr w1 = Some c" "set (calls ?w0) \<subseteq> set (calls w1)"
    by blast
  have "fetch_loop e self (i # rest) w = fetch_loop e self rest w1"
    using t x p(1) by (simp add: next_parent_tag_def)
  moreover have "set (calls w) \<subseteq> set (calls w1)" using p(3) by (auto simp: log_def)
  ultimately show ?thesis using p(2) client_ready_stored by blast
qed

lemma fetch_loop_skip_prefix:
  assumes "client_ready e w" and "\<forall>i\<in>set pre. candidate_not_found e self i"
  shows "\<exists>w1. client_ready e w1 \<and> set (calls w) \<subseteq> set (calls w1)
           \<and> fetch_loop e self (pre @ rest) w = fetch_loop e self rest w1"
  using assms
proof (induction pre arbitrary: w)
  case Nil
  then show ?case by auto
next
  case (Cons i pre)
  from fetch_loop_absorb [OF Cons.prems(1), of self i "pre @ rest"] Cons.prems(2)
  obtain w1 where w1: "client_ready e w1" "set (calls w) \<subseteq> set (calls w1)"
    "fetch_loop e self (i # pre @ rest) w = fetch_loop e self (pre @ rest) w1"
    by auto
  from Cons.IH [OF w1(1)] Cons.prems(2) obtain w2 where
    "client_ready e w2" "set (calls w1) \<subseteq> set (calls w2)"
    "fetch_loop e self (pre @ rest) w1 = fetch_loop e self rest w2"
    by auto
  with w1 show ?case by (intro exI [of _ w2]) auto
qed

lemma fetch_loop_none:
  assumes "client_ready e w" and "\<forall>i\<in>set offs. candidate_not_found e self i"
  shows "fst (fetch_loop e self offs w) = Inr None"
  using fetch_loop_skip_prefix [OF assms, of "[]"] by auto

lemma fetch_loop_head:
  assumes "client_ready e w"
    and "last_modified_commit e (path self) (Some k) = Inr t"
  shows "\<exists>c w1 w2. set (calls w) \<subseteq> set (calls w1) \<and> Pull c (name self @ '':'' @ py_str t) \<in> set (calls w1)
           \<and> fetch_loop e self (k # post) w =
               (case pull e (name self @ '':'' @ py_str t) of
                  Inr u \<Rightarrow> (Inr (Some (name self @ '':'' @ py_str t)), w1)
                | Inl x \<Rightarrow> if is_NotFound x then fetch_loop e self post w1
                           else (Inl (Raised x), w1))"
proof -
  let ?w0 = "log (LastModifiedCommit (path self) (Some k)) w"
  have "client_ready e ?w0" using assms(1) by (simp add: client_ready_log)
  from pull_image_ready [OF this, of self "name self @ '':'' @ py_str t"] obtain c w1 where
    p: "pull_image e self (name self @ '':'' @ py_str t) ?w0 = (pull e (name self @ '':'' @ py_str t), w1)"
      "docker_attr w1 = Some c" "Pull c (name self @ '':'' @ py_str t) \<in> set (calls w1)"
      "set (calls ?w0) \<subseteq> set (calls w1)"
    by blast
  have "set (calls w) \<subseteq> set (calls w1)" using p(4) by (auto simp: log_def)
  moreover have "fetch_loop e self (k # post) w =
               (case pull e (name self @ '':'' @ py_str t) of
                  Inr u \<Rightarrow> (Inr (Some (name self @ '':'' @ py_str t)), w1)
                | Inl x \<Rightarrow> if is_NotFound x then fetch_loop e self post w1
                           else (Inl (Raised x), w1))"
    using assms(2) p(1) by (simp add: next_parent_tag_def split: sum.splits)
  ultimately show ?thesis using p(3) by blast
qed

lemma docker_calls_mono: "set (calls w) \<subseteq> set (calls (snd (docker e self w)))"
  by (auto simp: docker_def Let_def log_def split: option.splits sum.splits)

lemma pull_image_calls_mono: "set (calls w) \<subseteq> set (calls (snd (pull_image e self spec w)))"
  using docker_calls_mono [of w e self]
  by (auto simp: pull_image_def log_def split: prod.splits sum.splits)

lemma fetch_loop_calls_mono: "set (calls w) \<subseteq> set (calls (snd (fetch_loop e self offs w)))"
proof (induction offs arbitrary: w)
  case Nil
  then show ?case by simp
next
  case (Cons i offs)
  let ?w0 = "log (LastModifiedCommit (path self) (Some i)) w"
  have a: "set (calls w) \<subseteq> set (calls ?w0)" by (auto simp: log_def)
  show ?case
  proof (cases "last_modified_commit e (path self) (Some i)")
    case (Inl x)
    then show ?thesis using a by (simp add: next_parent_tag_def)
  next
    case (Inr t)
    let ?spec = "name self @ '':'' @ py_str t"
    obtain r w2 where p: "pull_image e self ?spec ?w0 = (r, w2)" by fastforce
    with pull_image_calls_mono [of ?w0 e self ?spec] have b: "set (calls ?w0) \<subseteq> set (calls w2)"
      by simp
    show ?thesis
    proof (cases r)
      case (Inl x)
      with Inr p a b Cons.IH [of w2] show ?thesis
        by (auto simp: next_parent_tag_def)
    next
      case (Inr u)
      with \<open>last_modified_commit e (path self) (Some i) = Inr t\<close> p a b show ?thesis
        by (auto simp: next_parent_tag_def)
    qed
  qed
qed

lemma parent_offsets_split:
  assumes "1 \<le> k" and "k < n"
  shows "parent_offsets n = [1..<k] @ k # [Suc k..<n]"
proof -
  from assms(2) obtain d where d: "n = k + d" by (auto dest: less_imp_add_positive)
  have "[1..<k + d] = [1..<k] @ [k..<k + d]" using assms(1) by (rule upt_add_eq_append)
  moreover have "[k..<n] = k # [Suc k..<n]" using assms(2) by (rule upt_conv_Cons)
  ultimately show ?thesis by (simp add: parent_offsets_def d)
qed

lemma parent_tags_loop_all:
  assumes "\<forall>i\<in>set offs. last_modified_commit e (path self) (Some i) = Inr (f i)"
  shows "fst (parent_tags_loop e self offs w) = Inr (map f offs)"
  using assms
proof (induction offs arbitrary: w)
  case Nil
  then show ?case by simp
next
  case (Cons i offs)
  let ?w1 = "log (LastModifiedCommit (path self) (Some i)) w"
  from Cons.prems have "fst (parent_tags_loop e self offs ?w1) = Inr (map f offs)"
    by (intro Cons.IH) simp
  then obtain w2 where "parent_tags_loop e self offs ?w1 = (Inr (map f offs), w2)"
    by (cases "parent_tags_loop e self offs ?w1") simp
  with Cons.prems show ?case by (simp add: next_parent_tag_def)
qed

lemma fetch_parent_image_at:
  assumes "client_ready e w" and "1 \<le> k" and "k < 16"
    and "\<forall>i\<in>set [1..<k]. candidate_not_found e self i"
    and "last_modified_commit e (path self) (Some k) = Inr t"
  shows "\<exists>c w1. Pull c (name self @ '':'' @ py_str t) \<in> set (calls w1)
           \<and> fetch_parent_image e self w =
               (case pull e (name self @ '':'' @ py_str t) of
                  Inr u \<Rightarrow> (Inr (Some (name self @ '':'' @ py_str t)), w1)
                | Inl x \<Rightarrow> if is_NotFound x then fetch_loop e self [Suc k..<16] w1
                           else (Inl (Raised x), w1))"
proof -
  from fetch_loop_skip_prefix [OF assms(1,4), of "k # [Suc k..<16]"] obtain w0 where
    w0: "client_ready e w0"
      "fetch_loop e self ([1..<k] @ k # [Suc k..<16]) w = fetch_loop e self (k # [Suc k..<16]) w0"
    by blast
  from fetch_loop_head [OF w0(1) assms(5), of "[Suc k..<16]"] w0(2)
    parent_offsets_split [OF assms(2,3)]
  show ?thesis by (auto simp: fetch_parent_image_def)
qed



text \<open>
  C3. The probe asks git for the offsets of \<open>range(1, n)\<close> with \<open>n = 16\<close>, which
  are 1 to 15, although the docstring of \<open>get_possible_parent_tags\<close> announces \<open>n\<close>
  tags. With a registry that holds the image of offset 16 only, a window of 16 candidates
  would find it; the probe returns None, and the generator yields 15 tags.
\<close>

theorem fetch_parent_image_window_short:
  "last_modified_commit sixteenth_env (path example_image) (Some 16) = Inr (Some ''0016abc'')
   \<and> pull sixteenth_env (name example_image @ '':'' @ ''0016abc'') = Inr ()
   \<and> fst (fetch_parent_image sixteenth_env example_image initial_world) = Inr None
   \<and> fst (get_possible_parent_tags sixteenth_env example_image 16 initial_world)
       = Inr (replicate 15 (Some ''0000fff''))"
proof -
  have nf: "\<forall>i\<in>set (parent_offsets 16). candidate_not_found sixteenth_env example_image i"
    by (auto simp: parent_offsets_def candidate_not_found_def sixteenth_env_def example_env_def
        example_image_def)
  have ready: "client_ready sixteenth_env initial_world"
    by (simp add: client_ready_def sixteenth_env_def example_env_def)
  have a: "fst (fetch_parent_image sixteenth_env example_image initial_world) = Inr None"
    using fetch_loop_none [OF ready nf] by (simp add: fetch_parent_image_def)
  have "\<forall>i\<in>set (parent_offsets 16).
          last_modified_commit sixteenth_env (path example_image) (Some i) = Inr (Some ''0000fff'')"
    by (auto simp: parent_offsets_def sixteenth_env_def example_env_def)
  from parent_tags_loop_all [OF this, of initial_world]
  have b: "fst (get_possible_parent_tags sixteenth_env example_image 16 initial_world)
       = Inr (replicate 15 (Some ''0000fff''))"
    by (simp add: get_possible_parent_tags_def parent_offsets_def map_replicate_const)
  show ?thesis using a b
    by (simp add: sixteenth_env_def example_env_def example_image_def)
qed

lemma pull_image_exact:
  assumes "client_ready e w"
  shows "\<exists>w1. pull_image e self spec w = (pull e spec, w1)
           \<and> docker_attr w1 = Some (client_of w)
           \<and> without_from_env (calls w1) = without_from_env (calls w) @ [Pull (client_of w) spec]"
proof -
  from docker_exact [OF assms, of self] obtain w0 where
    d: "docker e self w = (Inr (client_of w), w0)" "docker_attr w0 = Some (client_of w)"
      "without_from_env (calls w0) = without_from_env (calls w)"
    by blast
  then show ?thesis
    by (simp add: pull_image_def log_def without_from_env_def)
qed

lemma fetch_head_trace:
  assumes "client_ready e w"
    and "last_modified_commit e (path self) (Some k) = Inr t"
  shows "\<exists>w1. docker_attr w1 = Some (client_of w)
           \<and> without_from_env (calls w1)
               = without_from_env (calls w) @ probe_calls e self (client_of w) [k]
           \<and> fetch_loop e self (k # post) w =
               (case pull e (name self @ '':'' @ py_str t) of
                  Inr u \<Rightarrow> (Inr (Some (name self @ '':'' @ py_str t)), w1)
                | Inl x \<Rightarrow> if is_NotFound x then fetch_loop e self post w1
                           else (Inl (Raised x), w1))"
proof -
  let ?w0 = "log (LastModifiedCommit (path self) (Some k)) w"
  let ?spec = "name self @ '':'' @ py_str t"
  have r: "client_ready e ?w0" using assms(1) by (simp add: client_ready_log)
  have c: "client_of ?w0 = client_of w" by (rule client_of_log)
  from pull_image_exact [OF r, of self ?spec] c obtain w1 where
    p: "pull_image e self ?spec ?w0 = (pull e ?spec, w1)"
      "docker_attr w1 = Some (client_of w)"
      "without_from_env (calls w1) = without_from_env (calls ?w0) @ [Pull (client_of w) ?spec]"
    by auto
  have "without_from_env (calls w1)
          = without_from_env (calls w) @ probe_calls e self (client_of w) [k]"
    using p(3) assms(2)
    by (simp add: probe_calls_def candidate_spec_def tag_at_def log_def without_from_env_def)
  moreover have "fetch_loop e self (k # post) w =
               (case pull e ?spec of
                  Inr u \<Rightarrow> (Inr (Some ?spec), w1)
                | Inl x \<Rightarrow> if is_NotFound x then fetch_loop e self post w1
                           else (Inl (Raised x), w1))"
    using assms(2) p(1) by (simp add: next_parent_tag_def split: sum.splits)
  ultimately show ?thesis using p(2) by blast
qed

lemma probe_calls_append:
  "probe_calls e self c (xs @ ys) = probe_calls e self c xs @ probe_calls e self c ys"
  by (simp add: probe_calls_def)

lemma fetch_loop_trace:
  assumes "client_ready e w" and "\<forall>i\<in>set pre. candidate_not_found e self i"
  shows "\<exists>w1. fetch_loop e self (pre @ rest) w = fetch_loop e self rest w1
           \<and> client_ready e w1 \<and> client_of w1 = client_of w
           \<and> without_from_env (calls w1)
               = without_from_env (calls w) @ probe_calls e self (client_of w) pre"
  using assms
proof (induction pre arbitrary: w)
  case Nil
  then show ?case by (intro exI [of _ w]) (simp add: probe_calls_def)
next
  case (Cons i pre)
  from Cons.prems(2) obtain t x where
    t: "last_modified_commit e (path self) (Some i) = Inr t"
    and x: "pull e (name self @ '':'' @ py_str t) = Inl x" "is_NotFound x"
    by (auto simp: candidate_not_found_def split: sum.splits)
  from fetch_head_trace [OF Cons.prems(1) t, of "pre @ rest"] x obtain w1 where
    w1: "docker_attr w1 = Some (client_of w)"
      "without_from_env (calls w1)
         = without_from_env (calls w) @ probe_calls e self (client_of w) [i]"
      "fetch_loop e self (i # pre @ rest) w = fetch_loop e self (pre @ rest) w1"
    by auto
  have r1: "client_ready e w1" using w1(1) by (rule client_ready_stored)
  have c1: "client_of w1 = client_of w" using w1(1) by (rule client_of_stored)
  from Cons.IH [OF r1] Cons.prems(2) obtain w2 where
    w2: "fetch_loop e self (pre @ rest) w1 = fetch_loop e self rest w2"
      "client_ready e w2" "client_of w2 = client_of w1"
      "without_from_env (calls w2)
         = without_from_env (calls w1) @ probe_calls e self (client_of w1) pre"
    by auto
  have "probe_calls e self (client_of w) (i # pre)
          = probe_calls e self (client_of w) [i] @ probe_calls e self (client_of w) pre"
    using probe_calls_append [of e self "client_of w" "[i]" pre] by simp
  with w1 w2 c1 show ?case by (intro exI [of _ w2]) simp
qed

lemma fetch_parent_image_trace:
  assumes "client_ready e w" and "1 \<le> k" and "k < 16"
    and "\<forall>i\<in>set [1..<k]. candidate_not_found e self i"
    and "last_modified_commit e (path self) (Some k) = Inr t"
  shows "\<exists>w1. without_from_env (calls w1)
                 = without_from_env (calls w) @ probe_calls e self (client_of w) [1..<Suc k]
           \<and> fetch_parent_image e self w =
               (case pull e (name self @ '':'' @ py_str t) of
                  Inr u \<Rightarrow> (Inr (Some (name self @ '':'' @ py_str t)), w1)
                | Inl x \<Rightarrow> if is_NotFound x then fetch_loop e self [Suc k..<16] w1
                           else (Inl (Raised x), w1))"
proof -
  from fetch_loop_trace [OF assms(1,4), of "k # [Suc k..<16]"] obtain w0 where
    w0: "fetch_loop e self ([1..<k] @ k # [Suc k..<16]) w = fetch_loop e self (k # [Suc k..<16]) w0"
      "client_ready e w0" "client_of w0 = client_of w"
      "without_from_env (calls w0)
         = without_from_env (calls w) @ probe_calls e self (client_of w) [1..<k]"
    by blast
  from fetch_head_trace [OF w0(2) assms(5), of "[Suc k..<16]"] w0(3) obtain w1 where
    w1: "without_from_env (calls w1)
           = without_from_env (calls w0) @ probe_calls e self (client_of w) [k]"
      "fetch_loop e self (k # [Suc k..<16]) w0 =
               (case pull e (name self @ '':'' @ py_str t) of
                  Inr u \<Rightarrow> (Inr (Some (name self @ '':'' @ py_str t)), w1)
                | Inl x \<Rightarrow> if is_NotFound x then fetch_loop e self [Suc k..<16] w1
                           else (Inl (Raised x), w1))"
    by auto
  have "[1..<Suc k] = [1..<k] @ [k]" using assms(2) by simp
  then have "probe_calls e self (client_of w) [1..<Suc k]
          = probe_calls e self (client_of w) [1..<k] @ probe_calls e self (client_of w) [k]"
    by (simp add: probe_calls_append)
  with w0 w1 parent_offsets_split [OF assms(2,3)] show ?thesis
    by (intro exI [of _ w1]) (simp add: fetch_parent_image_def)
qed

lemma parent_tags_loop_exact:
  assumes "\<forall>i\<in>set offs. last_modified_commit e (path self) (Some i) = Inr (f i)"
  shows "parent_tags_loop e self offs w =
           (Inr (map f offs),
            w\<lparr>calls := calls w @ map (\<lambda>i. LastModifiedCommit (path self) (Some i)) offs\<rparr>)"
  using assms
proof (induction offs arbitrary: w)
  case Nil
  then show ?case by simp
next
  case (Cons i offs)
  let ?w1 = "log (LastModifiedCommit (path self) (Some i)) w"
  from Cons.prems have "parent_tags_loop e self offs ?w1 =
           (Inr (map f offs),
            ?w1\<lparr>calls := calls ?w1 @ map (\<lambda>i. LastModifiedCommit (path self) (Some i)) offs\<rparr>)"
    by (intro Cons.IH) simp
  with Cons.prems show ?case by (simp add: next_parent_tag_def log_def)
qed

text \<open>
  C10. The generator asks git at every offset of its range and yields every answer, an
  empty one included. The probe does not skip or stop at a candidate with an empty
  answer: with the candidates before offset \<open>k\<close> not found (empty or not) and an empty
  answer \<open>t\<close> at \<open>k\<close>, the calls the probe has made when the pull at \<open>k\<close> is
  answered are, for each offset from 1 to \<open>k\<close> in turn, the question to git and then
  the pull of that offset's candidate, \<open>name:t\<close> for offset \<open>k\<close>; and the probe
  returns, goes on or raises by the answer to that pull. When all candidates of the window
  are not found, every one of them has been asked and pulled, in order.
\<close>

theorem empty_candidate_is_pulled:
  "((\<forall>i\<in>set (parent_offsets n). last_modified_commit e (path self) (Some i) = Inr (f i))
      \<longrightarrow> get_possible_parent_tags e self n w =
            (Inr (map f (parent_offsets n)),
             w\<lparr>calls := calls w
                  @ map (\<lambda>i. LastModifiedCommit (path self) (Some i)) (parent_offsets n)\<rparr>))
   \<and> (client_ready e w \<and> 1 \<le> k \<and> k < 16 \<and> (\<forall>i\<in>set [1..<k]. candidate_not_found e self i)
        \<and> last_modified_commit e (path self) (Some k) = Inr t \<and> \<not> truthy t
      \<longrightarrow> (\<exists>w1. without_from_env (calls w1)
                   = without_from_env (calls w) @ probe_calls e self (client_of w) [1..<Suc k]
             \<and> fetch_parent_image e self w =
               (case pull e (name self @ '':'' @ py_str t) of
                  Inr u \<Rightarrow> (Inr (Some (name self @ '':'' @ py_str t)), w1)
                | Inl x \<Rightarrow> if is_NotFound x then fetch_loop e self [Suc k..<16] w1
                           else (Inl (Raised x), w1))))
   \<and> (client_ready e w \<and> (\<forall>i\<in>set (parent_offsets 16). candidate_not_found e self i)
      \<longrightarrow> (\<exists>w1. fetch_parent_image e self w = (Inr None, w1)
             \<and> without_from_env (calls w1)
                 = without_from_env (calls w)
                   @ probe_calls e self (client_of w) (parent_offsets 16)))"
proof (intro conjI impI)
  assume "\<forall>i\<in>set (parent_offsets n). last_modified_commit e (path self) (Some i) = Inr (f i)"
  then show "get_possible_parent_tags e self n w =
            (Inr (map f (parent_offsets n)),
             w\<lparr>calls := calls w
                  @ map (\<lambda>i. LastModifiedCommit (path self) (Some i)) (parent_offsets n)\<rparr>)"
    using parent_tags_loop_exact [of "parent_offsets n" e self f w]
    by (simp add: get_possible_parent_tags_def)
next
  assume h: "client_ready e w \<and> 1 \<le> k \<and> k < 16 \<and> (\<forall>i\<in>set [1..<k]. candidate_not_found e self i)
        \<and> last_modified_commit e (path self) (Some k) = Inr t \<and> \<not> truthy t"
  then have "client_ready e w" "1 \<le> k" "k < 16" "\<forall>i\<in>set [1..<k]. candidate_not_found e self i"
    "last_modified_commit e (path self) (Some k) = Inr t" by simp_all
  then show "\<exists>w1. without_from_env (calls w1)
                   = without_from_env (calls w) @ probe_calls e self (client_of w) [1..<Suc k]
             \<and> fetch_parent_image e self w =
               (case pull e (name self @ '':'' @ py_str t) of
                  Inr u \<Rightarrow> (Inr (Some (name self @ '':'' @ py_str t)), w1)
                | Inl x \<Rightarrow> if is_NotFound x then fetch_loop e self [Suc k..<16] w1
                           else (Inl (Raised x), w1))"
    by (rule fetch_parent_image_trace)
next
  assume h: "client_ready e w \<and> (\<forall>i\<in>set (parent_offsets 16). candidate_not_found e self i)"
  with fetch_loop_trace [of e w "parent_offsets 16" self "[]"]
  show "\<exists>w1. fetch_parent_image e self w = (Inr None, w1)
             \<and> without_from_env (calls w1)
                 = without_from_env (calls w)
                   @ probe_calls e self (client_of w) (parent_offsets 16)"
    by (auto simp: fetch_parent_image_def)
qed

theorem empty_candidate_is_pulled_witness:
  "fst (get_possible_parent_tags no_history_env example_image 4 initial_world)
     = Inr [Some [], Some [], Some []]
   \<and> (\<exists>w1. without_from_env (calls w1)
             = [LastModifiedCommit ''/repo/image'' (Some 1), Pull 0 ''hub/img:'',
                LastModifiedCommit ''/repo/image'' (Some 2), Pull 0 ''hub/img:'',
                LastModifiedCommit ''/repo/image'' (Some 3), Pull 0 ''hub/img:'']
          \<and> fetch_parent_image no_history_env example_image initial_world
              = fetch_loop no_history_env example_image [4..<16] w1)
   \<and> fst (fetch_parent_image no_history_env example_image initial_world) = Inr None"
proof -
  have nf: "candidate_not_found no_history_env example_image i" for i
    by (simp add: candidate_not_found_def no_history_env_def example_env_def example_image_def)
  have ready: "client_ready no_history_env initial_world"
    by (simp add: client_ready_def no_history_env_def example_env_def)
  have offs: "parent_offsets 4 = [1, 2, 3]" "[1..<4] = [1, 2, 3::nat]"
    by (simp_all add: parent_offsets_def upt_rec)
  have git: "last_modified_commit no_history_env p (Some i) = Inr (Some [])" for p i
    by (simp add: no_history_env_def example_env_def)
  have a: "fst (get_possible_parent_tags no_history_env example_image 4 initial_world)
     = Inr [Some [], Some [], Some []]"
    using empty_candidate_is_pulled
      [where n = 4 and e = no_history_env and self = example_image and f = "\<lambda>i. Some []"
         and w = initial_world, THEN conjunct1]
    by (simp add: offs git)
  have calls3: "probe_calls no_history_env example_image 0 [1, 2, 3]
             = [LastModifiedCommit ''/repo/image'' (Some 1), Pull 0 ''hub/img:'',
                LastModifiedCommit ''/repo/image'' (Some 2), Pull 0 ''hub/img:'',
                LastModifiedCommit ''/repo/image'' (Some 3), Pull 0 ''hub/img:'']"
    by (simp add: probe_calls_def candidate_spec_def tag_at_def git example_image_def)
  have start: "client_of initial_world = 0" "without_from_env (calls initial_world) = []"
    by (simp_all add: client_of_def without_from_env_def initial_world_def)
  have pull: "pull no_history_env (''hub/img'' @ '':'')
                = Inl (DockerError NotFound (Some ''not found''))"
    by (simp add: no_history_env_def example_env_def)
  have nm: "name example_image = ''hub/img''" by (simp add: example_image_def)
  have three: "[1..<Suc 3] = [1, 2, 3::nat]" by (simp add: upt_rec)
  have prem: "client_ready no_history_env initial_world \<and> 1 \<le> (3::nat) \<and> (3::nat) < 16
        \<and> (\<forall>i\<in>set [1..<3]. candidate_not_found no_history_env example_image i)
        \<and> last_modified_commit no_history_env (path example_image) (Some 3) = Inr (Some [])
        \<and> \<not> truthy (Some [])"
    by (simp add: nf ready git)
  from empty_candidate_is_pulled
      [where e = no_history_env and self = example_image and w = initial_world and k = 3
         and t = "Some []", THEN conjunct2, THEN conjunct1, THEN mp, OF prem]
  obtain w1 where
    w1: "without_from_env (calls w1)
           = without_from_env (calls initial_world)
             @ probe_calls no_history_env example_image (client_of initial_world) [1..<Suc 3]"
      "fetch_parent_image no_history_env example_image initial_world =
         (case pull no_history_env (name example_image @ '':'' @ py_str (Some [])) of
            Inr u \<Rightarrow> (Inr (Some (name example_image @ '':'' @ py_str (Some []))), w1)
          | Inl x \<Rightarrow> if is_NotFound x
                     then fetch_loop no_history_env example_image [Suc 3..<16] w1
                     else (Inl (Raised x), w1))"
    by blast
  have p1: "without_from_env (calls w1)
             = [LastModifiedCommit ''/repo/image'' (Some 1), Pull 0 ''hub/img:'',
                LastModifiedCommit ''/repo/image'' (Some 2), Pull 0 ''hub/img:'',
                LastModifiedCommit ''/repo/image'' (Some 3), Pull 0 ''hub/img:'']"
    using w1(1) by (simp only: start three calls3 append_Nil)
  have "[Suc 3..<16] = [4..<16]" by simp
  then have p2: "fetch_parent_image no_history_env example_image initial_world
              = fetch_loop no_history_env example_image [4..<16] w1"
    using w1(2) by (simp only: nm pull py_str.simps append_Nil2 sum.case is_NotFound.simps if_True)
  from p1 p2 have b: "\<exists>w1. without_from_env (calls w1)
             = [LastModifiedCommit ''/repo/image'' (Some 1), Pull 0 ''hub/img:'',
                LastModifiedCommit ''/repo/image'' (Some 2), Pull 0 ''hub/img:'',
                LastModifiedCommit ''/repo/image'' (Some 3), Pull 0 ''hub/img:'']
          \<and> fetch_parent_image no_history_env example_image initial_world
              = fetch_loop no_history_env example_image [4..<16] w1"
    by blast
  have c: "fst (fetch_parent_image no_history_env example_image initial_world) = Inr None"
    using empty_candidate_is_pulled
      [where e = no_history_env and self = example_image and w = initial_world,
         THEN conjunct2, THEN conjunct2]
    by (auto simp: nf ready)
  from a b c show ?thesis by blast
qed

subsection \<open>The build\<close>

lemma fetch_loop_spec_nonempty:
  "fetch_loop e self offs w = (Inr (Some s), w1) \<Longrightarrow> s \<noteq> []"
  by (induction offs arbitrary: w)
    (auto simp: next_parent_tag_def Let_def split: sum.splits prod.splits if_splits)

lemma init_fields:
  assumes "init e nm pth helm w = (Inr img, w1)"
  shows "name img = nm" "path img = pth" "helm_substitution_path img = helm"
    "image_spec img = nm @ '':'' @ tag img"
    "r2d img = \<lparr>subdir = pth, output_image_spec = nm @ '':'' @ tag img, user_id = 1000,
               user_name = ''jovyan'', target_repo_dir = ''/srv/repo'', cache_from = []\<rparr>"
  using assms
  by (auto simp: init_def Let_def split: sum.splits)

lemma build_result:
  "(case fetch_parent_image e self w of
      (Inl x, w2) \<Rightarrow> build e self w = (Inl x, self, w2)
    | (Inr probe, w2) \<Rightarrow>
        build e self w =
          ((case build_r2d e (build_config self probe) of
              Inl x \<Rightarrow> Inl (Raised x) | Inr u \<Rightarrow> Inr ()),
           self\<lparr>r2d := build_config self probe\<rparr>,
           log (R2dBuild (build_config self probe)) w2))"
proof (cases "fetch_parent_image e self w")
  case (Pair r w2)
  show ?thesis
  proof (cases r)
    case (Inl x)
    with Pair show ?thesis by (simp add: build_def)
  next
    case (Inr probe)
    show ?thesis
    proof (cases probe)
      case None
      with Pair Inr show ?thesis
        by (simp add: build_def build_config_def Let_def split: sum.splits)
    next
      case (Some s)
      with Pair Inr have "s \<noteq> []"
        using fetch_loop_spec_nonempty [of e self "parent_offsets 16" w s w2]
        by (simp add: fetch_parent_image_def)
      with Pair Inr Some show ?thesis
        by (simp add: build_def build_config_def Let_def split: sum.splits)
    qed
  qed
qed

lemma init_wired: "init e nm pth helm w = (Inr img, w1) \<Longrightarrow> r2d_wired img"
  by (simp add: r2d_wired_def init_fields)

lemma build_wired: "r2d_wired self \<Longrightarrow> r2d_wired (fst (snd (build e self w)))"
  by (auto simp: build_def Let_def r2d_wired_def split: prod.splits sum.splits)

lemma invoke_wired: "r2d_wired self \<Longrightarrow> r2d_wired (fst (invoke e m self w))"
  by (cases m) (simp_all add: build_wired)

lemma act_wired:
  assumes "\<forall>img\<in>set imgs. r2d_wired img"
  shows "\<forall>img\<in>set (fst (act e a (imgs, w))). r2d_wired img"
proof (cases a)
  case (Construct nm pth helm)
  with assms show ?thesis
    by (auto split: prod.splits sum.splits dest: init_wired)
next
  case (Call j m)
  show ?thesis
  proof (cases "j < length imgs")
    case True
    obtain img1 w1 where inv: "invoke e m (imgs ! j) w = (img1, w1)" by fastforce
    have "r2d_wired (imgs ! j)" using assms True by simp
    with invoke_wired [of "imgs ! j" e m w] inv have "r2d_wired img1" by simp
    with Call True inv assms show ?thesis
      using set_update_subset_insert [of imgs j img1] by auto
  next
    case False
    with Call assms show ?thesis by simp
  qed
qed

lemma run_wired:
  assumes "\<forall>img\<in>set imgs. r2d_wired img"
  shows "\<forall>img\<in>set (fst (run s (imgs, w))). r2d_wired img"
  using assms
proof (induction s arbitrary: imgs w)
  case Nil
  then show ?case by simp
next
  case (Cons ea s)
  obtain e a where ea: "ea = (e, a)" by fastforce
  obtain imgs1 w1 where st: "act e a (imgs, w) = (imgs1, w1)" by fastforce
  from act_wired [OF Cons.prems, of e a w] st
  have "\<forall>img\<in>set imgs1. r2d_wired img" by simp
  from Cons.IH [OF this, of w1] ea st show ?case by simp
qed

text \<open>
  C7. For every LocalImage, \<open>build\<close> runs the probe first. When the probe raises, so
  does \<open>build\<close>, and the engine is not run. Otherwise the engine is run, after the calls
  of the probe, on the instance's Repo2Docker object, where \<open>cache_from\<close> is the one
  candidate when the probe returned one, and is left as it was when the probe returned
  None: empty on an instance as \<open>__init__\<close> returns it. On every instance of a process
  that object carries the image's path as \<open>subdir\<close> and the image's \<open>image_spec\<close> as
  \<open>output_image_spec\<close>.
\<close>

theorem build_invokes_engine:
  "(case fetch_parent_image e self w of
      (Inl x, w2) \<Rightarrow> build e self w = (Inl x, self, w2)
    | (Inr probe, w2) \<Rightarrow>
        build e self w =
          ((case build_r2d e (build_config self probe) of
              Inl x \<Rightarrow> Inl (Raised x) | Inr u \<Rightarrow> Inr ()),
           self\<lparr>r2d := build_config self probe\<rparr>,
           log (R2dBuild (build_config self probe)) w2))
   \<and> (\<forall>img w1. init e nm pth helm w = (Inr img, w1) \<longrightarrow> cache_from (r2d img) = [])
   \<and> (\<forall>img\<in>set (fst (run s ([], w))). \<forall>probe.
         subdir (build_config img probe) = path img
         \<and> output_image_spec (build_config img probe) = image_spec img)"
proof (intro conjI allI impI ballI)
  show "(case fetch_parent_image e self w of
      (Inl x, w2) \<Rightarrow> build e self w = (Inl x, self, w2)
    | (Inr probe, w2) \<Rightarrow>
        build e self w =
          ((case build_r2d e (build_config self probe) of
              Inl x \<Rightarrow> Inl (Raised x) | Inr u \<Rightarrow> Inr ()),
           self\<lparr>r2d := build_config self probe\<rparr>,
           log (R2dBuild (build_config self probe)) w2))"
    by (rule build_result)
next
  fix img w1
  assume "init e nm pth helm w = (Inr img, w1)"
  then show "cache_from (r2d img) = []" by (simp add: init_fields)
next
  fix img probe
  assume "img \<in> set (fst (run s ([], w)))"
  with run_wired [of "[]" s w] have "r2d_wired img" by simp
  then show "subdir (build_config img probe) = path img"
    and "output_image_spec (build_config img probe) = image_spec img"
    by (simp_all add: r2d_wired_def build_config_def)
qed

lemma example_fetch_hit:
  "\<exists>w2. fetch_parent_image example_env example_image w = (Inr (Some ''hub/img:beef002''), w2)"
proof -
  have ready: "client_ready example_env w"
    by (simp add: client_ready_def example_env_def)
  have nf: "\<forall>i\<in>set [1..<2]. candidate_not_found example_env example_image i"
  proof
    fix i :: nat
    assume "i \<in> set [1..<2]"
    then have "i = 1" by auto
    then show "candidate_not_found example_env example_image i"
      by (simp add: candidate_not_found_def example_env_def example_image_def)
  qed
  have t: "last_modified_commit example_env (path example_image) (Some 2) = Inr (Some ''beef002'')"
    by (simp add: example_env_def)
  from fetch_parent_image_at [OF ready _ _ nf t] show ?thesis
    by (auto simp: example_env_def example_image_def)
qed

lemma example_build_hit:
  "\<exists>w2. build example_env example_image w = (Inr (), built_image, w2)
         \<and> last (calls w2) = R2dBuild (r2d built_image)"
proof -
  from example_fetch_hit [of w] obtain w2 where
    "fetch_parent_image example_env example_image w = (Inr (Some ''hub/img:beef002''), w2)"
    by blast
  with build_result [of example_env example_image w] show ?thesis
    by (simp add: build_config_def built_image_def example_env_def log_def)
qed

lemma empty_registry_build:
  "fst (fetch_parent_image empty_registry_env self w) = Inr None
   \<and> last (calls (snd (snd (build empty_registry_env self w)))) = R2dBuild (r2d self)"
proof -
  have ready: "client_ready empty_registry_env w"
    by (simp add: client_ready_def empty_registry_env_def example_env_def)
  have "\<forall>i\<in>set (parent_offsets 16). candidate_not_found empty_registry_env self i"
    by (simp add: candidate_not_found_def empty_registry_env_def example_env_def)
  from fetch_loop_none [OF ready this] obtain w3 where
    g: "fetch_parent_image empty_registry_env self w = (Inr None, w3)"
    by (cases "fetch_parent_image empty_registry_env self w") (simp add: fetch_parent_image_def)
  with build_result [of empty_registry_env self w] show ?thesis
    by (simp add: build_config_def log_def)
qed

theorem build_invokes_engine_witness:
  "fst (build example_env example_image initial_world) = Inr ()
   \<and> r2d (fst (snd (build example_env example_image initial_world)))
       = (r2d example_image)\<lparr>cache_from := [''hub/img:beef002'']\<rparr>
   \<and> last (calls (snd (snd (build example_env example_image initial_world))))
       = R2dBuild ((r2d example_image)\<lparr>cache_from := [''hub/img:beef002'']\<rparr>)
   \<and> (\<exists>img w1. init example_env ''hub/img'' ''/repo/image'' default_helm_substitution_path
                  initial_world = (Inr img, w1) \<and> cache_from (r2d img) = [])
   \<and> subdir (build_config
               (fst (run [(example_env,
                           Construct ''hub/img'' ''/repo/image'' default_helm_substitution_path)]
                         ([], initial_world)) ! 0)
               (Some ''hub/img:beef002'')) = ''/repo/image''"
proof -
  let ?s = "[(example_env, Construct ''hub/img'' ''/repo/image'' default_helm_substitution_path)]"
  note inst = build_invokes_engine [where e = example_env and self = example_image
      and w = initial_world and nm = "''hub/img''" and pth = "''/repo/image''"
      and helm = default_helm_substitution_path and s = ?s]
  obtain w1 where i: "init example_env ''hub/img'' ''/repo/image'' default_helm_substitution_path
                initial_world = (Inr example_image, w1)"
    by (simp add: init_def example_env_def example_image_def Let_def resolve_tag_def
        default_helm_substitution_path_def)
  from example_fetch_hit [of initial_world] obtain w2 where
    f: "fetch_parent_image example_env example_image initial_world
          = (Inr (Some ''hub/img:beef002''), w2)"
    by blast
  from inst [THEN conjunct1] f
  have a: "fst (build example_env example_image initial_world) = Inr ()"
    "r2d (fst (snd (build example_env example_image initial_world)))
       = (r2d example_image)\<lparr>cache_from := [''hub/img:beef002'']\<rparr>"
    "last (calls (snd (snd (build example_env example_image initial_world))))
       = R2dBuild ((r2d example_image)\<lparr>cache_from := [''hub/img:beef002'']\<rparr>)"
    by (simp_all add: build_config_def example_env_def log_def)
  from inst [THEN conjunct2, THEN conjunct1] i
  have b: "\<exists>img w1. init example_env ''hub/img'' ''/repo/image'' default_helm_substitution_path
                  initial_world = (Inr img, w1) \<and> cache_from (r2d img) = []"
    by blast
  have r: "fst (run ?s ([], initial_world)) = [example_image]"
    using i by simp
  from inst [THEN conjunct2, THEN conjunct2] r
  have c: "subdir (build_config (fst (run ?s ([], initial_world)) ! 0)
               (Some ''hub/img:beef002'')) = ''/repo/image''"
    by (simp add: example_image_def)
  from a b c show ?thesis by blast
qed

text \<open>
  The cache source is not passed only when the probe returns one: after a build whose
  probe found hub/img:beef002, a second build of the same instance against a registry
  that holds no image has a probe that returns None, and runs the engine with
  hub/img:beef002 still in \<open>cache_from\<close>.
\<close>

theorem build_after_cache_hit_counterexample:
  "fst (snd (build example_env example_image initial_world)) = built_image
   \<and> cache_from (r2d built_image) = [''hub/img:beef002'']
   \<and> fst (fetch_parent_image empty_registry_env built_image
            (snd (snd (build example_env example_image initial_world)))) = Inr None
   \<and> last (calls (snd (snd (build empty_registry_env built_image
                               (snd (snd (build example_env example_image initial_world)))))))
       = R2dBuild (r2d built_image)"
proof -
  from example_build_hit [of initial_world]
  have "fst (snd (build example_env example_image initial_world)) = built_image"
    by auto
  moreover have "cache_from (r2d built_image) = [''hub/img:beef002'']"
    by (simp add: built_image_def)
  ultimately show ?thesis
    using empty_registry_build
      [of built_image "snd (snd (build example_env example_image initial_world))"]
    by simp
qed

subsection \<open>Identity of an image\<close>

lemma same_identity_refl: "same_identity a a"
  by (simp add: same_identity_def)

lemma same_identity_trans: "same_identity a b \<Longrightarrow> same_identity b c \<Longrightarrow> same_identity a c"
  by (simp add: same_identity_def)

lemma same_identity_consistent: "same_identity a b \<Longrightarrow> spec_consistent b \<Longrightarrow> spec_consistent a"
  by (simp add: same_identity_def spec_consistent_def)

lemma build_same_identity: "same_identity (fst (snd (build e self w))) self"
  by (auto simp: build_def Let_def same_identity_def split: prod.splits sum.splits)

lemma invoke_same_identity: "same_identity (fst (invoke e m self w)) self"
  by (cases m) (simp_all add: same_identity_refl build_same_identity)

lemma act_same_identity:
  assumes "i < length imgs"
  shows "i < length (fst (act e a (imgs, w)))
       \<and> same_identity (fst (act e a (imgs, w)) ! i) (imgs ! i)"
proof (cases a)
  case (Construct nm pth helm)
  with assms show ?thesis
    by (auto simp: same_identity_refl nth_append split: prod.splits sum.splits)
next
  case (Call j m)
  show ?thesis
  proof (cases "j < length imgs")
    case True
    obtain img1 w1 where inv: "invoke e m (imgs ! j) w = (img1, w1)" by fastforce
    with invoke_same_identity [of e m "imgs ! j" w] have "same_identity img1 (imgs ! j)" by simp
    with Call True inv assms show ?thesis
      by (cases "i = j") (simp_all add: same_identity_refl)
  next
    case False
    with Call assms show ?thesis by (simp add: same_identity_refl)
  qed
qed

lemma run_same_identity:
  assumes "i < length imgs"
  shows "i < length (fst (run s (imgs, w)))
       \<and> same_identity (fst (run s (imgs, w)) ! i) (imgs ! i)"
  using assms
proof (induction s arbitrary: imgs w)
  case Nil
  then show ?case by (simp add: same_identity_refl)
next
  case (Cons ea s)
  obtain e a where ea: "ea = (e, a)" by fastforce
  obtain imgs1 w1 where st: "act e a (imgs, w) = (imgs1, w1)" by fastforce
  from act_same_identity [OF Cons.prems, of e a w] st
  have 1: "i < length imgs1" "same_identity (imgs1 ! i) (imgs ! i)" by simp_all
  from Cons.IH [OF 1(1), of w1] 1(2) ea st show ?case
    by (auto intro: same_identity_trans)
qed

lemma init_consistent: "init e nm pth helm w = (Inr img, w1) \<Longrightarrow> spec_consistent img"
  by (simp add: spec_consistent_def init_fields)

lemma act_consistent:
  assumes "\<forall>img\<in>set imgs. spec_consistent img"
  shows "\<forall>img\<in>set (fst (act e a (imgs, w))). spec_consistent img"
proof (cases a)
  case (Construct nm pth helm)
  with assms show ?thesis
    by (auto split: prod.splits sum.splits dest: init_consistent)
next
  case (Call j m)
  show ?thesis
  proof (cases "j < length imgs")
    case True
    obtain img1 w1 where inv: "invoke e m (imgs ! j) w = (img1, w1)" by fastforce
    with invoke_same_identity [of e m "imgs ! j" w] have "same_identity img1 (imgs ! j)" by simp
    moreover have "spec_consistent (imgs ! j)" using assms True by simp
    ultimately have "spec_consistent img1" by (rule same_identity_consistent)
    with Call True inv assms show ?thesis
      using set_update_subset_insert [of imgs j img1] by auto
  next
    case False
    with Call assms show ?thesis by simp
  qed
qed

lemma run_consistent:
  assumes "\<forall>img\<in>set imgs. spec_consistent img"
  shows "\<forall>img\<in>set (fst (run s (imgs, w))). spec_consistent img"
  using assms
proof (induction s arbitrary: imgs w)
  case Nil
  then show ?case by simp
next
  case (Cons ea s)
  obtain e a where ea: "ea = (e, a)" by fastforce
  obtain imgs1 w1 where st: "act e a (imgs, w) = (imgs1, w1)" by fastforce
  from act_consistent [OF Cons.prems, of e a w] st
  have "\<forall>img\<in>set imgs1. spec_consistent img" by simp
  from Cons.IH [OF this, of w1] ea st show ?case by simp
qed

text \<open>
  C8. \<open>__init__\<close> sets \<open>name\<close> and \<open>path\<close> from its arguments and
  \<open>image_spec\<close> to \<open>name:tag\<close>; no operation of the class changes \<open>name\<close>,
  \<open>tag\<close>, \<open>path\<close> or \<open>image_spec\<close>, so the equation is kept; and the same holds
  along every process, for every instance.
\<close>

theorem identity_fields_immutable:
  "(\<forall>img w1. init e nm pth helm w = (Inr img, w1)
       \<longrightarrow> name img = nm \<and> path img = pth \<and> spec_consistent img)
   \<and> same_identity (fst (invoke e m self w)) self
   \<and> (spec_consistent self \<longrightarrow> spec_consistent (fst (invoke e m self w)))
   \<and> (\<forall>i<length imgs. i < length (fst (run s (imgs, w)))
         \<and> same_identity (fst (run s (imgs, w)) ! i) (imgs ! i))
   \<and> (\<forall>img\<in>set (fst (run s ([], w))). spec_consistent img)"
proof (intro conjI allI impI)
  fix img w1
  assume "init e nm pth helm w = (Inr img, w1)"
  then show "name img = nm" "path img = pth" "spec_consistent img"
    by (simp_all add: init_fields init_consistent)
next
  show "same_identity (fst (invoke e m self w)) self" by (rule invoke_same_identity)
next
  assume "spec_consistent self"
  with invoke_same_identity [of e m self w] show "spec_consistent (fst (invoke e m self w))"
    by (rule same_identity_consistent)
next
  fix i
  assume "i < length imgs"
  then show "i < length (fst (run s (imgs, w)))"
    and "same_identity (fst (run s (imgs, w)) ! i) (imgs ! i)"
    using run_same_identity [of i imgs s w] by simp_all
next
  show "\<forall>img\<in>set (fst (run s ([], w))). spec_consistent img"
    using run_consistent [of "[]" s w] by simp
qed

subsection \<open>The shared client\<close>

lemma client_step_refl: "client_step w w"
  by (simp add: client_step_def)

lemma client_step_trans: "client_step w w1 \<Longrightarrow> client_step w1 w2 \<Longrightarrow> client_step w w2"
  by (auto simp: client_step_def)

lemma client_step_log: "client_step w w1 \<Longrightarrow> client_step w (log c w1)"
  by (simp add: client_step_def log_def)

lemma docker_client_step: "client_step w (snd (docker e self w))"
  by (auto simp: docker_def client_step_def log_def Let_def split: option.splits sum.splits)

lemma registry_data_client_step: "client_step w (snd (registry_data e self w))"
  using docker_client_step [of w e self]
  by (auto simp: registry_data_def intro: client_step_log split: prod.splits sum.splits)

lemma exists_in_registry_client_step: "client_step w (snd (exists_in_registry e self w))"
  using registry_data_client_step [of w e self]
  by (auto simp: exists_in_registry_def split: prod.splits sum.splits exn.splits option.splits)

lemma pull_image_client_step: "client_step w (snd (pull_image e self spec w))"
  using docker_client_step [of w e self]
  by (auto simp: pull_image_def intro: client_step_log split: prod.splits sum.splits)

lemma next_parent_tag_client_step: "client_step w (snd (next_parent_tag e self i w))"
  by (simp add: next_parent_tag_def client_step_log client_step_refl)

lemma parent_tags_loop_client_step: "client_step w (snd (parent_tags_loop e self offs w))"
proof (induction offs arbitrary: w)
  case Nil
  then show ?case by (simp add: client_step_refl)
next
  case (Cons i offs)
  let ?w1 = "log (LastModifiedCommit (path self) (Some i)) w"
  have "client_step w ?w1" by (simp add: client_step_log client_step_refl)
  moreover have "client_step ?w1 (snd (parent_tags_loop e self offs ?w1))" by (rule Cons.IH)
  ultimately have "client_step w (snd (parent_tags_loop e self offs ?w1))"
    by (rule client_step_trans)
  then show ?case
    by (auto simp: next_parent_tag_def client_step_log client_step_refl
        split: prod.splits sum.splits)
qed

lemma fetch_loop_client_step: "client_step w (snd (fetch_loop e self offs w))"
proof (induction offs arbitrary: w)
  case Nil
  then show ?case by (simp add: client_step_refl)
next
  case (Cons i offs)
  let ?w1 = "log (LastModifiedCommit (path self) (Some i)) w"
  have a: "client_step w ?w1" by (simp add: client_step_log client_step_refl)
  show ?case
  proof (cases "last_modified_commit e (path self) (Some i)")
    case (Inl x)
    with a show ?thesis by (simp add: next_parent_tag_def)
  next
    case (Inr t)
    let ?spec = "name self @ '':'' @ py_str t"
    obtain r w2 where p: "pull_image e self ?spec ?w1 = (r, w2)" by fastforce
    with pull_image_client_step [of ?w1 e self ?spec] have "client_step ?w1 w2" by simp
    with a have b: "client_step w w2" by (rule client_step_trans)
    from b Cons.IH [of w2] have c: "client_step w (snd (fetch_loop e self offs w2))"
      by (rule client_step_trans)
    from Inr p b c show ?thesis
      by (cases r) (simp_all add: next_parent_tag_def)
  qed
qed

lemma needs_building_client_step:
  "client_step w (snd (needs_building e self check_registry commit_range w))"
  using exists_in_registry_client_step [of w e self]
  by (auto simp: needs_building_def client_step_refl client_step_log
      split: prod.splits sum.splits)

lemma build_client_step: "client_step w (snd (snd (build e self w)))"
  using fetch_loop_client_step [of w e self "parent_offsets 16"]
  by (auto simp: build_def fetch_parent_image_def Let_def intro: client_step_log
      split: prod.splits sum.splits)

lemma push_client_step: "client_step w (snd (push e self w))"
  by (auto simp: push_def client_step_refl client_step_log split: sum.splits)

lemma init_client_step: "client_step w (snd (init e nm pth helm w))"
  by (auto simp: init_def Let_def client_step_refl client_step_log split: sum.splits)

lemma invoke_client_step: "client_step w (snd (invoke e m self w))"
  by (cases m)
    (simp_all add: docker_client_step exists_in_registry_client_step
      get_possible_parent_tags_def parent_tags_loop_client_step fetch_parent_image_def
      fetch_loop_client_step needs_building_client_step build_client_step push_client_step)

lemma act_client_step: "client_step w (snd (act e a (imgs, w)))"
proof (cases a)
  case (Construct nm pth helm)
  with init_client_step [of w e nm pth helm] show ?thesis
    by (auto split: prod.splits sum.splits)
next
  case (Call j m)
  with invoke_client_step [of w e m "imgs ! j"] show ?thesis
    by (auto simp: client_step_refl split: prod.splits)
qed

lemma run_client_step: "client_step w (snd (run s (imgs, w)))"
proof (induction s arbitrary: imgs w)
  case Nil
  then show ?case by (simp add: client_step_refl)
next
  case (Cons ea s)
  obtain e a where ea: "ea = (e, a)" by fastforce
  obtain imgs1 w1 where st: "act e a (imgs, w) = (imgs1, w1)" by fastforce
  with act_client_step [of w e a imgs] have "client_step w w1" by simp
  from this Cons.IH [of w1 imgs1] have "client_step w (snd (run s (imgs1, w1)))"
    by (rule client_step_trans)
  with ea st show ?case by simp
qed

text \<open>
  C9. With the class attribute set, the property \<open>docker\<close> returns the stored client
  and calls nothing; with the attribute unset and \<open>docker.from_env()\<close> succeeding, it
  constructs a client, stores and returns it. Once stored, the client stays stored
  through every process and no further client is constructed; from the start of a
  process on, at most one client is ever constructed.
\<close>

theorem docker_client_memoized:
  "(docker_attr w = Some c \<longrightarrow> docker e self w = (Inr c, w))
   \<and> (docker_attr w = None \<and> from_env e = Inr ()
        \<longrightarrow> docker e self w =
              (Inr (clients_made w),
               (log FromEnv w)\<lparr>docker_attr := Some (clients_made w),
                                clients_made := Suc (clients_made w)\<rparr>))
   \<and> (docker_attr w = Some c
        \<longrightarrow> docker_attr (snd (run s (imgs, w))) = Some c
            \<and> clients_made (snd (run s (imgs, w))) = clients_made w)
   \<and> clients_made (snd (run s (imgs, initial_world))) \<le> 1"
proof (intro conjI impI)
  assume "docker_attr w = Some c"
  then show "docker e self w = (Inr c, w)" by (simp add: docker_def)
next
  assume "docker_attr w = None \<and> from_env e = Inr ()"
  then show "docker e self w =
              (Inr (clients_made w),
               (log FromEnv w)\<lparr>docker_attr := Some (clients_made w),
                                clients_made := Suc (clients_made w)\<rparr>)"
    by (simp add: docker_def Let_def log_def)
next
  assume h: "docker_attr w = Some c"
  with run_client_step [of w s imgs]
  show "docker_attr (snd (run s (imgs, w))) = Some c"
    and "clients_made (snd (run s (imgs, w))) = clients_made w"
    by (auto simp: client_step_def)
next
  from run_client_step [of initial_world s imgs]
  show "clients_made (snd (run s (imgs, initial_world))) \<le> 1"
    by (auto simp: client_step_def initial_world_def)
qed

theorem docker_client_memoized_witness:
  "docker example_env example_image (initial_world\<lparr>docker_attr := Some 0, clients_made := 1\<rparr>)
     = (Inr 0, initial_world\<lparr>docker_attr := Some 0, clients_made := 1\<rparr>)
   \<and> docker example_env example_image initial_world
     = (Inr 0, (log FromEnv initial_world)\<lparr>docker_attr := Some 0, clients_made := 1\<rparr>)
   \<and> docker_attr (snd (run [(example_env, Call 0 Build), (example_env, Call 0 ExistsInRegistry)]
                          ([example_image], initial_world\<lparr>docker_attr := Some 0, clients_made := 1\<rparr>)))
     = Some 0"
  using
    docker_client_memoized [where w = "initial_world\<lparr>docker_attr := Some 0, clients_made := 1\<rparr>"
      and c = 0 and e = example_env and self = example_image and imgs = "[example_image]"
      and s = "[(example_env, Call 0 Build), (example_env, Call 0 ExistsInRegistry)]"]
    docker_client_memoized [where w = initial_world and e = example_env and self = example_image]
  by (simp add: initial_world_def example_env_def)

theorem identity_fields_immutable_witness:
  "(\<exists>img w1. init example_env ''hub/img'' ''/repo/image'' default_helm_substitution_path
                initial_world = (Inr img, w1)
       \<and> name img = ''hub/img'' \<and> path img = ''/repo/image'' \<and> spec_consistent img)
   \<and> spec_consistent (fst (invoke example_env Build example_image initial_world))
   \<and> same_identity
        (fst (run [(example_env, Call 0 Build), (example_env, Call 0 Push)]
                  ([example_image], initial_world)) ! 0)
        example_image"
proof -
  have i: "\<exists>img w1. init example_env ''hub/img'' ''/repo/image'' default_helm_substitution_path
                initial_world = (Inr img, w1)"
    by (simp add: init_def example_env_def Let_def)
  have c: "spec_consistent example_image"
    by (simp add: spec_consistent_def example_image_def)
  from i c
    identity_fields_immutable [where e = example_env and nm = "''hub/img''"
      and pth = "''/repo/image''" and helm = default_helm_substitution_path
      and w = initial_world and m = Build and self = example_image
      and imgs = "[example_image]"
      and s = "[(example_env, Call 0 Build), (example_env, Call 0 Push)]"]
  show ?thesis by auto
qed


end
